theory Spec2Isabelle
  imports Main "HOL-Library.Sublist"
begin

section \<open>JavaScript strings\<close>

text \<open>
  A JavaScript string is modelled as a \<^typ>\<open>string\<close>, the list of the bytes of its UTF-8
  form. Every character the sources look for (the quote, the comma, the line feed, the dot,
  the dash, the ASCII letters) is a single byte that never occurs inside the encoding of
  another character, so searching and replacing bytewise agrees with the source.
\<close>

text \<open>\<^verbatim>\<open>xs.join(sep)\<close> on an array of strings.\<close>

fun join :: "string \<Rightarrow> string list \<Rightarrow> string" where
  "join sep [] = []"
| "join sep [x] = x"
| "join sep (x # y # ys) = x @ sep @ join sep (y # ys)"

text \<open>
  \<^verbatim>\<open>s.replace(pat, rep)\<close> with a string pattern: only the first occurrence of \<open>pat\<close>
  is replaced, and a string without one is returned as it is.
\<close>

fun replace_first :: "string \<Rightarrow> string \<Rightarrow> string \<Rightarrow> string" where
  "replace_first pat rep [] = (if pat = [] then rep else [])"
| "replace_first pat rep (c # cs) =
     (if prefix pat (c # cs) then rep @ drop (length pat) (c # cs)
      else c # replace_first pat rep cs)"

text \<open>\<^verbatim>\<open>s.replace(/"/g, '""')\<close>: every quote character is doubled.\<close>

definition double_quotes :: "string \<Rightarrow> string" where
  "double_quotes s = concat (map (\<lambda>c. if c = CHR 0x22 then [CHR 0x22, CHR 0x22] else [c]) s)"

text \<open>The decimal digits of a natural number, as a template literal prints an index.\<close>

fun digits_of :: "nat \<Rightarrow> string" where
  "digits_of n =
     (if n < 10 then [''0123456789'' ! n]
      else digits_of (n div 10) @ [''0123456789'' ! (n mod 10)])"

declare digits_of.simps [simp del]

text \<open>
  What a failing operation throws. The message of an error the engine or the network layer
  raises differs between engines; the model carries it along as a string.
\<close>

datatype js_error = Error string | TypeError string | SyntaxError string

fun message :: "js_error \<Rightarrow> string" where
  "message (Error m) = m"
| "message (TypeError m) = m"
| "message (SyntaxError m) = m"

section \<open>types.ts\<close>

datatype FileType = DOCX | PPTX | XLSX

record Slide =
  title :: string
  content :: string

text \<open>
  \<^verbatim>\<open>content: any\<close> of a generated file: a string (HTML for docx), an array of slides
  (for pptx) or a grid of cells (for xlsx). A cell may be \<^verbatim>\<open>null\<close> or
  \<^verbatim>\<open>undefined\<close> at run time (the serializer guards it with \<^verbatim>\<open>??\<close>), which is
  \<^const>\<open>None\<close> here. The type of a file and the shape of its content are separate
  fields, as in the source.
\<close>

datatype js_content =
    Text string
  | Slides "Slide list"
  | Grid "string option list list"

record GeneratedFile =
  gf_id :: string
  gf_name :: string
  gf_type :: FileType
  gf_content :: js_content

datatype NodeType = Folder | File

datatype TreeNode =
  TreeNode (node_id: string) (node_name: string) (node_type: NodeType)
    (children: "TreeNode list option") (fileData: "GeneratedFile option")

section \<open>services/zipService.ts\<close>

subsection \<open>convertXlsxToCsv\<close>

definition csv_cell :: "string option \<Rightarrow> string" where
  "csv_cell cell =
     [CHR 0x22] @ double_quotes (case cell of None \<Rightarrow> [] | Some s \<Rightarrow> s) @ [CHR 0x22]"

definition convertXlsxToCsv :: "string option list list \<Rightarrow> string" where
  "convertXlsxToCsv data =
     join [CHR 0x0A] (map (\<lambda>row. join '','' (map csv_cell row)) data)"

subsection \<open>convertPptxToText\<close>

definition slide_separator :: string where
  "slide_separator = replicate 40 (CHR ''-'') @ [CHR 0x0A]"

definition slide_block :: "nat \<Rightarrow> Slide \<Rightarrow> string" where
  "slide_block index slide =
     ''Slide '' @ digits_of (index + 1) @ '': '' @ title slide @ [CHR 0x0A]
       @ content slide @ [CHR 0x0A, CHR 0x0A]"

text \<open>\<^verbatim>\<open>slides.map((slide, index) => ...)\<close>, the index counted from \<open>i\<close>.\<close>

fun map_index :: "(nat \<Rightarrow> 'a \<Rightarrow> 'b) \<Rightarrow> nat \<Rightarrow> 'a list \<Rightarrow> 'b list" where
  "map_index f i [] = []"
| "map_index f i (x # xs) = f i x # map_index f (Suc i) xs"

definition convertPptxToText :: "Slide list \<Rightarrow> string" where
  "convertPptxToText slides = join slide_separator (map_index slide_block 0 slides)"

subsection \<open>The archive object\<close>

text \<open>
  The archive is a JSZip object: its entries are the properties of one object, keyed by
  their full paths, so the model is a map from paths to contents and says nothing of the
  order of the entries. \<^verbatim>\<open>zip.file(name, data)\<close> stores \<open>data\<close> under the path
  \<open>root + name\<close> and replaces an entry already stored under that path;
  \<^verbatim>\<open>zip.folder(name)\<close> is a view of the same entries whose root is \<open>root + name\<close>
  with a closing slash (the same view when \<open>name\<close> is empty). The map holds the file
  entries. The directory markers JSZip adds beside them are left out: JSZip adds a marker
  only under a path that has no entry yet, so a marker never replaces a file entry, and the
  file entries are the same with and without them.
\<close>

type_synonym zip_files = "string \<rightharpoonup> js_content"

definition forceTrailingSlash :: "string \<Rightarrow> string" where
  "forceTrailingSlash name = (if name \<noteq> [] \<and> last name = CHR ''/'' then name else name @ ''/'')"

definition zip_folder :: "string \<Rightarrow> string \<Rightarrow> string" where
  "zip_folder root name = (if name = [] then root else forceTrailingSlash (root @ name))"

definition zip_file :: "string \<Rightarrow> string \<Rightarrow> js_content \<Rightarrow> zip_files \<Rightarrow> zip_files" where
  "zip_file root name data files = files(root @ name \<mapsto> data)"

subsection \<open>addNodeToZip\<close>

text \<open>
  The casts \<^verbatim>\<open>file.content as ...\<close> check nothing at run time. A content of another
  shape reaches the converter as it is: \<^verbatim>\<open>.map\<close> of a string is not a function, the
  \<^verbatim>\<open>title\<close> and \<^verbatim>\<open>content\<close> of a row of cells are \<^verbatim>\<open>undefined\<close>.
\<close>

fun slides_cast :: "js_content \<Rightarrow> js_error + Slide list" where
  "slides_cast (Slides slides) = Inr slides"
| "slides_cast (Grid rows) = Inr (map (\<lambda>_. \<lparr>title = ''undefined'', content = ''undefined''\<rparr>) rows)"
| "slides_cast (Text _) = Inl (TypeError ''slides.map is not a function'')"

fun grid_cast :: "js_content \<Rightarrow> js_error + string option list list" where
  "grid_cast (Grid rows) = Inr rows"
| "grid_cast (Slides []) = Inr []"
| "grid_cast (Slides (_ # _)) = Inl (TypeError ''row.map is not a function'')"
| "grid_cast (Text _) = Inl (TypeError ''data.map is not a function'')"

text \<open>The \<^verbatim>\<open>switch (file.type)\<close>: the name and the content the entry is stored with.\<close>

definition switch_file_type :: "GeneratedFile \<Rightarrow> js_error + (string \<times> js_content)" where
  "switch_file_type file =
     (case gf_type file of
        DOCX \<Rightarrow> Inr (replace_first ''.docx'' ''.html'' (gf_name file), gf_content file)
      | PPTX \<Rightarrow>
          (case slides_cast (gf_content file) of
             Inl e \<Rightarrow> Inl e
           | Inr slides \<Rightarrow>
               Inr (replace_first ''.pptx'' ''.txt'' (gf_name file), Text (convertPptxToText slides)))
      | XLSX \<Rightarrow>
          (case grid_cast (gf_content file) of
             Inl e \<Rightarrow> Inl e
           | Inr rows \<Rightarrow>
               Inr (replace_first ''.xlsx'' ''.csv'' (gf_name file), Text (convertXlsxToCsv rows))))"

text \<open>
  \<open>addNodeToZip root node files\<close>: \<open>root\<close> is the root of the view \<open>zip\<close>, \<open>files\<close>
  the entries before the call; the result is the entries after it, or the error thrown.
  \<open>addNodes\<close> is the \<^verbatim>\<open>forEach\<close> over the children.
\<close>

fun addNodeToZip :: "string \<Rightarrow> TreeNode \<Rightarrow> zip_files \<Rightarrow> js_error + zip_files"
  and addNodes :: "string \<Rightarrow> TreeNode list \<Rightarrow> zip_files \<Rightarrow> js_error + zip_files" where
  "addNodeToZip root (TreeNode i name ty ch fd) files =
     (if ty = Folder then
        (case ch of
           None \<Rightarrow> Inr files
         | Some nodes \<Rightarrow> addNodes (zip_folder root name) nodes files)
      else
        (case fd of
           None \<Rightarrow> Inr files
         | Some file \<Rightarrow>
             (case switch_file_type file of
                Inl e \<Rightarrow> Inl e
              | Inr (fileName, data) \<Rightarrow> Inr (zip_file root fileName data files))))"
| "addNodes root [] files = Inr files"
| "addNodes root (node # nodes) files =
     (case addNodeToZip root node files of
        Inl e \<Rightarrow> Inl e
      | Inr files' \<Rightarrow> addNodes root nodes files')"

subsection \<open>downloadResultsAsZip\<close>

text \<open>The name the archive is saved under and its entries, or the error thrown.\<close>

definition downloadResultsAsZip :: "TreeNode list \<Rightarrow> js_error + (string \<times> zip_files)" where
  "downloadResultsAsZip tree =
     (case addNodes [] tree Map.empty of
        Inl e \<Rightarrow> Inl e
      | Inr files \<Rightarrow> Inr (''Rias_Research_Results.zip'', files))"

section \<open>components/FileViewer.tsx\<close>


text \<open>\<^verbatim>\<open>s.split(c)\<close> with a separator of one character: never the empty array.\<close>

fun split_on :: "char \<Rightarrow> string \<Rightarrow> string list" where
  "split_on c [] = [[]]"
| "split_on c (x # xs) =
     (if x = c then [] # split_on c xs
      else (x # hd (split_on c xs)) # tl (split_on c xs))"

text \<open>
  \<^verbatim>\<open>toLowerCase\<close> on the ASCII letters. No character outside ASCII is mapped to one of
  the letters of the extensions the viewer knows, so the dispatch below is not affected by
  leaving the other characters as they are.
\<close>

definition lower_char :: "char \<Rightarrow> char" where
  "lower_char c =
     (let n = (of_char c :: nat) in if 65 \<le> n \<and> n \<le> 90 then char_of (n + 32) else c)"

definition toLowerCase :: "string \<Rightarrow> string" where
  "toLowerCase s = map lower_char s"




text \<open>\<^verbatim>\<open>filePath.split('.').pop()?.toLowerCase()\<close>\<close>

definition fileExtension :: "string \<Rightarrow> string" where
  "fileExtension filePath = toLowerCase (last (split_on (CHR ''.'') filePath))"



section \<open>services/generationService.ts\<close>

subsection \<open>Parsed JSON and the conversions JavaScript applies to it\<close>

text \<open>
  A value \<^verbatim>\<open>response.json()\<close> yields. The client computes with no number: it
  tests one for truth and prints it. A number is therefore given by the text JavaScript
  prints for it (\<open>42\<close>, \<open>0.5\<close>, \<open>1e+21\<close>; \<open>0\<close> for both zeros), which tells two
  numbers apart. \<^verbatim>\<open>undefined\<close>, which a missing property reads as, is \<^const>\<open>None\<close> of
  \<open>json option\<close>.
\<close>

datatype json =
    JNull
  | JBool bool
  | JNum string
  | JStr string
  | JArr "json list"
  | JObj "(string \<times> json) list"

text \<open>ToString, as a template literal and \<^verbatim>\<open>new Error(v)\<close> apply it.\<close>

fun js_toString :: "json \<Rightarrow> string" where
  "js_toString JNull = ''null''"
| "js_toString (JBool b) = (if b then ''true'' else ''false'')"
| "js_toString (JNum n) = n"
| "js_toString (JStr s) = s"
| "js_toString (JArr xs) = join '','' (map (\<lambda>x. if x = JNull then [] else js_toString x) xs)"
| "js_toString (JObj ps) = ''[object Object]''"

definition js_string :: "json option \<Rightarrow> string" where
  "js_string v = (case v of None \<Rightarrow> ''undefined'' | Some j \<Rightarrow> js_toString j)"

fun js_truthy :: "json option \<Rightarrow> bool" where
  "js_truthy None = False"
| "js_truthy (Some JNull) = False"
| "js_truthy (Some (JBool b)) = b"
| "js_truthy (Some (JNum n)) = (n \<noteq> ''0'')"
| "js_truthy (Some (JStr s)) = (s \<noteq> [])"
| "js_truthy (Some (JArr xs)) = True"
| "js_truthy (Some (JObj ps)) = True"

text \<open>
  Reading one of the properties \<^verbatim>\<open>detail\<close>, \<^verbatim>\<open>session_id\<close>, \<^verbatim>\<open>status\<close>,
  \<^verbatim>\<open>tree_url\<close>: an object has it or not, a string, number, boolean or array has none
  of them, and \<^verbatim>\<open>null\<close> has no properties: reading one (\<open>js_get\<close>) and destructuring
  (\<open>js_destructure\<close>, for \<^verbatim>\<open>const { session_id } = await ...\<close>) throw a TypeError.
  Its text is worded by the engine; the texts here are those of V8, and nothing below
  depends on them.
\<close>

fun js_prop :: "json \<Rightarrow> string \<Rightarrow> json option" where
  "js_prop (JObj ps) k = map_of ps k"
| "js_prop _ k = None"

definition js_get :: "json \<Rightarrow> string \<Rightarrow> js_error + json option" where
  "js_get v k =
     (if v = JNull
      then Inl (TypeError (''Cannot read properties of null (reading '' @ [CHR 0x27] @ k
                           @ [CHR 0x27] @ '')''))
      else Inr (js_prop v k))"

definition js_destructure :: "json \<Rightarrow> string \<Rightarrow> js_error + json option" where
  "js_destructure v k =
     (if v = JNull
      then Inl (TypeError (''Cannot destructure property '' @ [CHR 0x27] @ k @ [CHR 0x27]
                           @ '' of '' @ [CHR 0x27] @ ''(intermediate value)'' @ [CHR 0x27]
                           @ '' as it is null.''))
      else Inr (js_prop v k))"

subsection \<open>What fetch answers\<close>

text \<open>
  \<^verbatim>\<open>fetch\<close> rejects (no response at all) or resolves with a response of any status;
  \<open>body\<close> is what \<^verbatim>\<open>response.json()\<close> settles to: the parsed value, or the error
  it rejects with when the body is not JSON.
\<close>

record response =
  status :: nat
  body :: "js_error + json"

datatype fetch_result = Rejected js_error | Resolved response

definition ok :: "response \<Rightarrow> bool" where
  "ok r = (200 \<le> status r \<and> status r \<le> 299)"

datatype request = Request (http_method: string) (url: string)

definition API_BASE_URL :: string where
  "API_BASE_URL = ''http://localhost:8000''"

subsection \<open>uploadAndProcessFile, checkJobStatus, getDownloadUrl\<close>

type_synonym upload_file = string

definition upload_request :: "upload_file \<Rightarrow> request" where
  "upload_request file = Request ''POST'' (API_BASE_URL @ ''/upload-and-process/'')"

text \<open>
  The function past its \<^verbatim>\<open>fetch\<close>, given what the fetch answered. The
  \<^verbatim>\<open>catch\<close> logs and throws the same error again.
\<close>

definition uploadAndProcessFile :: "upload_file \<Rightarrow> fetch_result \<Rightarrow> js_error + json" where
  "uploadAndProcessFile file answer =
     (case answer of
        Rejected e \<Rightarrow> Inl e
      | Resolved r \<Rightarrow>
          if \<not> ok r then
            (case body r of
               Inl e \<Rightarrow> Inl e
             | Inr err \<Rightarrow>
                 (case js_get err ''detail'' of
                    Inl e \<Rightarrow> Inl e
                  | Inr detail \<Rightarrow>
                      Inl (Error (if js_truthy detail then js_string detail
                                  else ''HTTP error! status: '' @ digits_of (status r)))))
          else body r)"

definition status_request :: "string \<Rightarrow> request" where
  "status_request sessionId = Request ''GET'' (API_BASE_URL @ ''/status/'' @ sessionId)"

definition checkJobStatus :: "string \<Rightarrow> fetch_result \<Rightarrow> js_error + json" where
  "checkJobStatus sessionId answer =
     (case answer of
        Rejected e \<Rightarrow> Inl e
      | Resolved r \<Rightarrow>
          if \<not> ok r then
            (case body r of
               Inl e \<Rightarrow> Inl e
             | Inr err \<Rightarrow>
                 (case js_get err ''detail'' of
                    Inl e \<Rightarrow> Inl e
                  | Inr detail \<Rightarrow>
                      Inl (Error (if js_truthy detail then js_string detail
                                  else ''HTTP error! status: '' @ digits_of (status r)))))
          else body r)"

definition getDownloadUrl :: "string \<Rightarrow> string" where
  "getDownloadUrl sessionId = API_BASE_URL @ ''/download-result/'' @ sessionId"

section \<open>App.tsx\<close>

text \<open>
  The state of the component, the module's \<open>pollInterval\<close>, and the part of the browser
  the handlers act on: the intervals that are set (each with the \<open>session_id\<close> its
  callback closed over), the requests that were sent, and the requests still in flight
  (each with the code that runs when it settles). A handler runs up to its next
  \<^verbatim>\<open>await\<close> of a request; the rest of it runs when that request settles, with whatever
  other events came in between.
\<close>

datatype continuation =
    AwaitUpload upload_file
  | AwaitStatus "json option"
  | AwaitTree

record app =
  uploadedFiles :: "upload_file list"
  isLoading :: bool
  error :: "string option"
  fileTree :: json
  statusMessage :: "string option"
  downloadUrl :: "string option"
  selectedFile :: "string option"
  pollInterval :: "nat option"
  timers :: "(nat \<times> json option) list"
  next_timer :: nat
  pending :: "(nat \<times> continuation) list"
  next_request :: nat
  requests :: "request list"

definition initial_app :: app where
  "initial_app =
     \<lparr>uploadedFiles = [], isLoading = False, error = None, fileTree = JNull,
      statusMessage = None, downloadUrl = None, selectedFile = None, pollInterval = None,
      timers = [], next_timer = 1, pending = [], next_request = 0, requests = []\<rparr>"

subsection \<open>The browser: intervals and requests\<close>

definition setInterval :: "json option \<Rightarrow> app \<Rightarrow> app" where
  "setInterval session_id s =
     s\<lparr>pollInterval := Some (next_timer s),
       timers := timers s @ [(next_timer s, session_id)],
       next_timer := Suc (next_timer s)\<rparr>"

definition clearInterval :: "nat \<Rightarrow> app \<Rightarrow> app" where
  "clearInterval h s = s\<lparr>timers := filter (\<lambda>t. fst t \<noteq> h) (timers s)\<rparr>"

text \<open>\<^verbatim>\<open>if (pollInterval) clearInterval(pollInterval);\<close>\<close>

definition clear_poll :: "app \<Rightarrow> app" where
  "clear_poll s = (case pollInterval s of None \<Rightarrow> s | Some h \<Rightarrow> clearInterval h s)"

definition fetch :: "request \<Rightarrow> continuation \<Rightarrow> app \<Rightarrow> app" where
  "fetch req k s =
     s\<lparr>requests := requests s @ [req],
       pending := (next_request s, k) # pending s,
       next_request := Suc (next_request s)\<rparr>"

subsection \<open>The handlers\<close>

definition handleFilesChange :: "upload_file list \<Rightarrow> app \<Rightarrow> app" where
  "handleFilesChange files s =
     clear_poll (s\<lparr>uploadedFiles := files, downloadUrl := None, error := None,
                   statusMessage := None, fileTree := JNull, selectedFile := None\<rparr>)"

definition handleFileClick :: "string \<Rightarrow> app \<Rightarrow> app" where
  "handleFileClick path s = s\<lparr>selectedFile := Some path\<rparr>"

definition handleCloseViewer :: "app \<Rightarrow> app" where
  "handleCloseViewer s = s\<lparr>selectedFile := None\<rparr>"

text \<open>\<open>handleGenerate\<close> up to \<^verbatim>\<open>await uploadAndProcessFile(file)\<close>.\<close>

definition handleGenerate :: "app \<Rightarrow> app" where
  "handleGenerate s =
     (case uploadedFiles s of
        [] \<Rightarrow> s
      | file # _ \<Rightarrow>
          fetch (upload_request file) (AwaitUpload file)
            (clear_poll (s\<lparr>isLoading := True, statusMessage := Some ''Uploading file...'',
                           downloadUrl := None, error := None, fileTree := JNull,
                           selectedFile := None\<rparr>)))"

definition processing_message :: "json option \<Rightarrow> string" where
  "processing_message session_id = ''Processing... (Job ID: '' @ js_string session_id @ '')''"

text \<open>
  \<open>handleGenerate\<close> from the upload's answer on: the destructuring of the result, the
  status message, the interval; or the \<^verbatim>\<open>catch\<close>.
\<close>

definition upload_settled :: "upload_file \<Rightarrow> fetch_result \<Rightarrow> app \<Rightarrow> app" where
  "upload_settled file answer s =
     (case (case uploadAndProcessFile file answer of
              Inl e \<Rightarrow> Inl e
            | Inr result \<Rightarrow> js_destructure result ''session_id'') of
        Inl uploadError \<Rightarrow>
          s\<lparr>isLoading := False, error := Some (''Upload failed: '' @ message uploadError)\<rparr>
      | Inr session_id \<Rightarrow>
          setInterval session_id (s\<lparr>statusMessage := Some (processing_message session_id)\<rparr>))"

text \<open>The interval's callback up to \<^verbatim>\<open>await checkJobStatus(session_id)\<close>.\<close>

definition poll :: "json option \<Rightarrow> app \<Rightarrow> app" where
  "poll session_id s =
     fetch (status_request (js_string session_id)) (AwaitStatus session_id) s"

text \<open>The callback from the status answer on, up to the fetch of the tree.\<close>

definition status_settled :: "json option \<Rightarrow> fetch_result \<Rightarrow> app \<Rightarrow> app" where
  "status_settled session_id answer s =
     (case (case checkJobStatus (js_string session_id) answer of
              Inl e \<Rightarrow> Inl e
            | Inr statusResult \<Rightarrow>
                (case js_get statusResult ''status'' of
                   Inl e \<Rightarrow> Inl e
                 | Inr st \<Rightarrow> Inr (statusResult, st))) of
        Inl pollError \<Rightarrow>
          (clear_poll s)\<lparr>isLoading := False,
                          error := Some ''Error checking job status. Please try again.''\<rparr>
      | Inr (statusResult, st) \<Rightarrow>
          if st = Some (JStr ''complete'') then
            (let s' = (clear_poll s)\<lparr>isLoading := False,
                                       statusMessage := Some ''Processing complete!'',
                                       downloadUrl := Some (getDownloadUrl (js_string session_id))\<rparr>;
                 tree_url = js_prop statusResult ''tree_url''
             in if js_truthy tree_url
                then fetch (Request ''GET'' (API_BASE_URL @ js_string tree_url)) AwaitTree s'
                else s')
          else s\<lparr>statusMessage := Some (processing_message session_id)\<rparr>)"

text \<open>The callback from the tree's answer on: the inner \<^verbatim>\<open>try\<close>.\<close>

definition tree_settled :: "fetch_result \<Rightarrow> app \<Rightarrow> app" where
  "tree_settled answer s =
     (case (case answer of Rejected e \<Rightarrow> Inl e | Resolved treeResponse \<Rightarrow> body treeResponse) of
        Inl treeError \<Rightarrow>
          s\<lparr>error := Some ''Processing complete, but failed to load results tree.''\<rparr>
      | Inr treeData \<Rightarrow> s\<lparr>fileTree := treeData\<rparr>)"

subsection \<open>Events\<close>

datatype event =
    FilesChange "upload_file list"
  | FileClick string
  | CloseViewer
  | Generate
  | Tick nat
  | Settle nat fetch_result

fun resume :: "continuation \<Rightarrow> fetch_result \<Rightarrow> app \<Rightarrow> app" where
  "resume (AwaitUpload file) answer s = upload_settled file answer s"
| "resume (AwaitStatus session_id) answer s = status_settled session_id answer s"
| "resume AwaitTree answer s = tree_settled answer s"

text \<open>
  An interval that was cleared does not fire, and a request settles once: such events leave
  the state as it is.
\<close>

fun step :: "event \<Rightarrow> app \<Rightarrow> app" where
  "step (FilesChange files) s = handleFilesChange files s"
| "step (FileClick path) s = handleFileClick path s"
| "step CloseViewer s = handleCloseViewer s"
| "step Generate s = handleGenerate s"
| "step (Tick h) s =
     (case map_of (timers s) h of None \<Rightarrow> s | Some session_id \<Rightarrow> poll session_id s)"
| "step (Settle r answer) s =
     (case map_of (pending s) r of
        None \<Rightarrow> s
      | Some k \<Rightarrow> resume k answer (s\<lparr>pending := filter (\<lambda>p. fst p \<noteq> r) (pending s)\<rparr>))"

fun run :: "event list \<Rightarrow> app \<Rightarrow> app" where
  "run [] s = s"
| "run (e # es) s = run es (step e s)"

section \<open>components/MainContent.tsx and the upload view\<close>

text \<open>
  What the upload view shows of the state. It is rendered while no file is selected for
  the viewer; the Generate button is there while \<open>downloadUrl\<close> is empty, and disabled
  while loading or without a file.
\<close>

definition truthy_string :: "string option \<Rightarrow> bool" where
  "truthy_string v = (case v of None \<Rightarrow> False | Some s \<Rightarrow> s \<noteq> [])"

definition shows_upload_view :: "app \<Rightarrow> bool" where
  "shows_upload_view s = (\<not> truthy_string (selectedFile s))"

definition shows_error :: "app \<Rightarrow> bool" where
  "shows_error s = (shows_upload_view s \<and> truthy_string (error s) \<and> \<not> isLoading s)"

definition shows_download :: "app \<Rightarrow> bool" where
  "shows_download s = (shows_upload_view s \<and> truthy_string (downloadUrl s) \<and> \<not> isLoading s)"

definition generate_enabled :: "app \<Rightarrow> bool" where
  "generate_enabled s =
     (shows_upload_view s \<and> \<not> truthy_string (downloadUrl s)
      \<and> \<not> (isLoading s \<or> uploadedFiles s = []))"

section \<open>Notions the properties are stated with\<close>

subsection \<open>A CSV decoder\<close>

text \<open>
  The text of a cell: \<^verbatim>\<open>(cell ?? '').toString()\<close>.
\<close>

definition cell_text :: "string option \<Rightarrow> string" where
  "cell_text cell = (case cell of None \<Rightarrow> [] | Some s \<Rightarrow> s)"

text \<open>
  A decoder for comma-separated text after RFC 4180: a field is quoted or not, a quote
  inside a quoted field is written twice, a comma ends a field, a line break outside quotes
  (a line feed, or a carriage return and a line feed) ends a record, and the last record
  needs no line break. An empty line is a record without fields. The decoder fails on a quote inside
  an unquoted field, on text after a closing quote, on a quoted field that is not
  closed and on a carriage return outside quotes that no line feed follows. Its state is the field read so far, the fields of the record so far and the
  records so far, each in reverse.
\<close>

datatype csv_state = RecordStart | FieldStart | Unquoted | Quoted | QuoteSeen | AfterCR

fun csv_run :: "csv_state \<Rightarrow> string \<Rightarrow> string list \<Rightarrow> string list list \<Rightarrow> string
    \<Rightarrow> string list list option" where
  "csv_run RecordStart f r rs [] = Some (rev rs)"
| "csv_run FieldStart f r rs [] = Some (rev (rev ([] # r) # rs))"
| "csv_run Unquoted f r rs [] = Some (rev (rev (rev f # r) # rs))"
| "csv_run Quoted f r rs [] = None"
| "csv_run QuoteSeen f r rs [] = Some (rev (rev (rev f # r) # rs))"
| "csv_run AfterCR f r rs [] = None"
| "csv_run RecordStart f r rs (c # cs) =
     (if c = CHR 0x22 then csv_run Quoted [] r rs cs
      else if c = CHR '','' then csv_run FieldStart [] ([] # r) rs cs
      else if c = CHR 0x0A then csv_run RecordStart [] [] (rev r # rs) cs
      else if c = CHR 0x0D then csv_run AfterCR [] [] (rev r # rs) cs
      else csv_run Unquoted [c] r rs cs)"
| "csv_run FieldStart f r rs (c # cs) =
     (if c = CHR 0x22 then csv_run Quoted [] r rs cs
      else if c = CHR '','' then csv_run FieldStart [] ([] # r) rs cs
      else if c = CHR 0x0A then csv_run RecordStart [] [] (rev ([] # r) # rs) cs
      else if c = CHR 0x0D then csv_run AfterCR [] [] (rev ([] # r) # rs) cs
      else csv_run Unquoted [c] r rs cs)"
| "csv_run Unquoted f r rs (c # cs) =
     (if c = CHR 0x22 then None
      else if c = CHR '','' then csv_run FieldStart [] (rev f # r) rs cs
      else if c = CHR 0x0A then csv_run RecordStart [] [] (rev (rev f # r) # rs) cs
      else if c = CHR 0x0D then csv_run AfterCR [] [] (rev (rev f # r) # rs) cs
      else csv_run Unquoted (c # f) r rs cs)"
| "csv_run Quoted f r rs (c # cs) =
     (if c = CHR 0x22 then csv_run QuoteSeen f r rs cs else csv_run Quoted (c # f) r rs cs)"
| "csv_run QuoteSeen f r rs (c # cs) =
     (if c = CHR 0x22 then csv_run Quoted (c # f) r rs cs
      else if c = CHR '','' then csv_run FieldStart [] (rev f # r) rs cs
      else if c = CHR 0x0A then csv_run RecordStart [] [] (rev (rev f # r) # rs) cs
      else if c = CHR 0x0D then csv_run AfterCR [] [] (rev (rev f # r) # rs) cs
      else None)"
| "csv_run AfterCR f r rs (c # cs) =
     (if c = CHR 0x0A then csv_run RecordStart [] [] rs cs else None)"

definition csv_decode :: "string \<Rightarrow> string list list option" where
  "csv_decode s = csv_run RecordStart [] [] [] s"

definition csv_row :: "string option list \<Rightarrow> string" where
  "csv_row row = join '','' (map csv_cell row)"

definition without_last_empty :: "'a list list \<Rightarrow> 'a list list" where
  "without_last_empty data = (if data \<noteq> [] \<and> last data = [] then butlast data else data)"

subsection \<open>Occurrences of a text in a text\<close>

text \<open>The number of positions of \<open>s\<close> at which \<open>pat\<close> starts.\<close>

fun occurrences :: "string \<Rightarrow> string \<Rightarrow> nat" where
  "occurrences pat [] = (if pat = [] then 1 else 0)"
| "occurrences pat (c # cs) = (if prefix pat (c # cs) then 1 else 0) + occurrences pat cs"

text \<open>
  The separator lines a slide holds itself: the occurrences of the separator in its title
  and in its body, each with the line feed that follows it in the text.
\<close>

definition separator_lines :: "Slide \<Rightarrow> nat" where
  "separator_lines slide =
     occurrences slide_separator (title slide @ [CHR 0x0A])
     + occurrences slide_separator (content slide @ [CHR 0x0A])"

subsection \<open>The file nodes of a forest that carry an artifact\<close>







subsection \<open>The strategy of a preview\<close>



subsection \<open>Traces of the application\<close>

text \<open>
  The requests an upload is waiting on. An event is enabled when the page offers it: the
  Generate button as the upload view renders it, the file input while the upload view is
  shown, an interval that is set, a request that is in flight.
\<close>

fun is_upload :: "continuation \<Rightarrow> bool" where
  "is_upload (AwaitUpload file) = True"
| "is_upload _ = False"

definition uploads_in_flight :: "app \<Rightarrow> (nat \<times> continuation) list" where
  "uploads_in_flight s = filter (\<lambda>p. is_upload (snd p)) (pending s)"

fun enabled :: "event \<Rightarrow> app \<Rightarrow> bool" where
  "enabled Generate s = generate_enabled s"
| "enabled (FilesChange files) s = shows_upload_view s"
| "enabled (FileClick path) s = True"
| "enabled CloseViewer s = (\<not> shows_upload_view s)"
| "enabled (Tick h) s = (h \<in> fst ` set (timers s))"
| "enabled (Settle r answer) s = (r \<in> fst ` set (pending s))"

fun ui_trace :: "event list \<Rightarrow> app \<Rightarrow> bool" where
  "ui_trace [] s = True"
| "ui_trace (e # es) s = (enabled e s \<and> ui_trace es (step e s))"

fun one_upload_at_a_time :: "event list \<Rightarrow> app \<Rightarrow> bool" where
  "one_upload_at_a_time [] s = True"
| "one_upload_at_a_time (e # es) s =
     ((e = Generate \<longrightarrow> uploads_in_flight s = []) \<and> one_upload_at_a_time es (step e s))"

definition one_timer :: "app \<Rightarrow> bool" where
  "one_timer s =
     ((\<forall>t \<in> set (timers s). pollInterval s = Some (fst t))
      \<and> length (timers s) \<le> 1
      \<and> (uploads_in_flight s \<noteq> [] \<longrightarrow> timers s = [])
      \<and> length (uploads_in_flight s) \<le> 1)"

text \<open>A reset left the page loading, with no interval and no request to end it.\<close>

definition stuck_loading :: "app \<Rightarrow> bool" where
  "stuck_loading s = (isLoading s \<and> timers s = [] \<and> pending s = [])"

text \<open>Answers of the backend and traces the properties below are evaluated on.\<close>

definition completed :: fetch_result where
  "completed = Resolved \<lparr>status = 200, body = Inr (JObj [(''status'', JStr ''complete'')])\<rparr>"

definition completed_with_tree :: fetch_result where
  "completed_with_tree =
     Resolved \<lparr>status = 200,
        body = Inr (JObj [(''status'', JStr ''complete''), (''tree_url'', JStr ''/t.json'')])\<rparr>"

definition tree_not_found :: fetch_result where
  "tree_not_found = Resolved \<lparr>status = 404, body = Inr (JObj [(''detail'', JStr ''Not Found'')])\<rparr>"

definition reset_during_upload_trace :: "event list" where
  "reset_during_upload_trace =
     [FilesChange [''paper.pdf''], Generate, FilesChange [''other.pdf''],
      Settle 0 (Resolved \<lparr>status = 200, body = Inr (JObj [(''session_id'', JStr ''s1'')])\<rparr>),
      Tick 1,
      Settle 1 (Resolved \<lparr>status = 200, body = Inr (JObj [(''status'', JStr ''complete'')])\<rparr>)]"

definition stale_error :: fetch_result where
  "stale_error = Resolved \<lparr>status = 500, body = Inr (JObj [(''detail'', JStr ''boom'')])\<rparr>"

definition started :: "string \<Rightarrow> fetch_result" where
  "started sessionId = Resolved \<lparr>status = 200, body = Inr (JObj [(''session_id'', JStr sessionId)])\<rparr>"

definition stale_poll_trace :: "event list" where
  "stale_poll_trace =
     [FilesChange [''paper.pdf''], Generate, Settle 0 (started ''s0''),
      Tick 1, Tick 1, Settle 1 stale_error,
      Generate, Settle 2 stale_error,
      Generate, Settle 3 (started ''s1''), Settle 4 (started ''s2'')]"

definition processing_state :: app where
  "processing_state =
     run [FilesChange [''paper.pdf''], Generate,
          Settle 0 (Resolved \<lparr>status = 200, body = Inr (JObj [(''session_id'', JStr ''s1'')])\<rparr>)]
       initial_app"

definition three_polls_trace ::
    "upload_file \<Rightarrow> string \<Rightarrow> string \<Rightarrow> string \<Rightarrow> string \<Rightarrow> json \<Rightarrow> event list" where
  "three_polls_trace file m sessionId result_url tree_url tree =
     [FilesChange [file], Generate,
      Settle 0 (Resolved \<lparr>status = 200, body = Inr (JObj [(''message'', JStr m),
         (''session_id'', JStr sessionId), (''filename'', JStr file)])\<rparr>),
      Tick 1,
      Settle 1 (Resolved \<lparr>status = 200, body = Inr (JObj [(''status'', JStr ''processing''),
         (''session_id'', JStr sessionId)])\<rparr>),
      Tick 1,
      Settle 2 (Resolved \<lparr>status = 200, body = Inr (JObj [(''status'', JStr ''processing''),
         (''session_id'', JStr sessionId)])\<rparr>),
      Tick 1,
      Settle 3 (Resolved \<lparr>status = 200, body = Inr (JObj [(''status'', JStr ''complete''),
         (''session_id'', JStr sessionId), (''result_url'', JStr result_url),
         (''tree_url'', JStr tree_url)])\<rparr>),
      Settle 4 (Resolved \<lparr>status = 200, body = Inr tree\<rparr>)]"

section \<open>Properties of the serializers\<close>

subsection \<open>convertXlsxToCsv\<close>

lemma run_quoted_body:
  "csv_run Quoted f r rs (double_quotes s @ rest) = csv_run Quoted (rev s @ f) r rs rest"
  by (induction s arbitrary: f) (simp_all add: double_quotes_def)

lemma run_cell:
  "st = RecordStart \<or> st = FieldStart \<Longrightarrow>
   csv_run st f r rs (csv_cell c @ rest) = csv_run QuoteSeen (rev (cell_text c)) r rs rest"
  by (auto simp: csv_cell_def cell_text_def run_quoted_body split: option.splits)

lemma run_row:
  "row \<noteq> [] \<Longrightarrow> st = RecordStart \<or> st = FieldStart \<Longrightarrow>
   csv_run st f r rs (join '','' (map csv_cell row) @ rest) =
   csv_run QuoteSeen (rev (cell_text (last row))) (rev (map cell_text (butlast row)) @ r) rs rest"
proof (induction row arbitrary: st f r)
  case Nil
  then show ?case by simp
next
  case (Cons c row)
  show ?case
  proof (cases row)
    case Nil
    with Cons.prems show ?thesis by (simp add: run_cell)
  next
    case (Cons d row')
    have "csv_run st f r rs (join '','' (map csv_cell (c # row)) @ rest) =
          csv_run FieldStart [] (cell_text c # r) rs (join '','' (map csv_cell row) @ rest)"
      using Cons.prems Cons by (simp add: run_cell)
    also have "\<dots> = csv_run QuoteSeen (rev (cell_text (last row)))
        (rev (map cell_text (butlast row)) @ cell_text c # r) rs rest"
      using Cons.IH [of FieldStart] Cons by simp
    finally show ?thesis using Cons by simp
  qed
qed

lemma map_butlast_last:
  "row \<noteq> [] \<Longrightarrow> map g (butlast row) @ [g (last row)] = map g row"
proof -
  assume "row \<noteq> []"
  then have "map g row = map g (butlast row @ [last row])" by simp
  then show ?thesis by simp
qed

lemma run_row_end:
  assumes "row \<noteq> []"
  shows "csv_run RecordStart f [] rs (csv_row row) = Some (rev rs @ [map cell_text row])"
proof -
  have "csv_run RecordStart f [] rs (csv_row row @ []) =
      csv_run QuoteSeen (rev (cell_text (last row))) (rev (map cell_text (butlast row)) @ []) rs []"
    unfolding csv_row_def using assms by (intro run_row) simp_all
  then show ?thesis
    using map_butlast_last [OF assms, of cell_text] by simp
qed

lemma run_row_next:
  assumes "row \<noteq> []"
  shows "csv_run RecordStart f [] rs (csv_row row @ CHR 0x0A # rest) =
     csv_run RecordStart [] [] (map cell_text row # rs) rest"
proof -
  have "csv_run RecordStart f [] rs (csv_row row @ CHR 0x0A # rest) =
      csv_run QuoteSeen (rev (cell_text (last row))) (rev (map cell_text (butlast row)) @ []) rs
        (CHR 0x0A # rest)"
    unfolding csv_row_def using assms by (intro run_row) simp_all
  then show ?thesis
    using map_butlast_last [OF assms, of cell_text] by simp
qed

lemma run_rows:
  "data \<noteq> [] \<Longrightarrow>
   csv_run RecordStart f [] rs (join [CHR 0x0A] (map csv_row data)) =
     Some (rev rs @ map (map cell_text) (without_last_empty data))"
proof (induction data arbitrary: f rs)
  case Nil
  then show ?case by simp
next
  case (Cons row data)
  show ?case
  proof (cases data)
    case Nil
    then show ?thesis
      by (cases "row = []") (simp_all add: run_row_end without_last_empty_def, simp add: csv_row_def)
  next
    case (Cons row' data')
    have step: "csv_run RecordStart f [] rs (csv_row row @ CHR 0x0A # rest) =
        csv_run RecordStart [] [] (map cell_text row # rs) rest" for rest
      by (cases "row = []") (simp_all add: run_row_next, simp add: csv_row_def)
    have "without_last_empty (row # data) = row # without_last_empty data"
      using Cons by (simp add: without_last_empty_def)
    then show ?thesis
      using Cons Cons.IH [of "[]" "map cell_text row # rs"] step by simp
  qed
qed

lemma csv_decode_convertXlsxToCsv:
  "csv_decode (convertXlsxToCsv data) = Some (map (map cell_text) (without_last_empty data))"
proof (cases "data = []")
  case True
  then show ?thesis by (simp add: csv_decode_def convertXlsxToCsv_def without_last_empty_def)
next
  case False
  then show ?thesis
    using run_rows [of data "[]" "[]"]
    by (simp add: csv_decode_def convertXlsxToCsv_def csv_row_def [abs_def])
qed

lemma concat_without_last_empty: "concat (without_last_empty data) = concat data"
  by (cases data rule: rev_cases) (simp_all add: without_last_empty_def)

text \<open>
  Claim C3. Decoding the CSV text of a grid succeeds for every grid, whatever its cells
  hold (quotes, commas, line feeds), and yields the texts of the cells, in order, with
  \<^verbatim>\<open>null\<close> and \<^verbatim>\<open>undefined\<close> as the empty text; when no row of the grid is empty
  the decoded records are the rows of the grid.
\<close>

theorem csv_round_trip:
  "\<exists>rows. csv_decode (convertXlsxToCsv data) = Some rows
     \<and> concat rows = concat (map (map cell_text) data)
     \<and> ([] \<notin> set data \<longrightarrow> rows = map (map cell_text) data)"
proof -
  have "[] \<notin> set data \<Longrightarrow> without_last_empty data = data"
  proof -
    assume a: "[] \<notin> set data"
    have "data \<noteq> [] \<Longrightarrow> last data \<noteq> []"
      using a last_in_set [of data] by metis
    then show ?thesis by (auto simp: without_last_empty_def)
  qed
  moreover have "concat (map (map cell_text) (without_last_empty data)) = concat (map (map cell_text) data)"
    by (simp add: concat_without_last_empty flip: map_concat)
  ultimately show ?thesis
    by (auto simp: csv_decode_convertXlsxToCsv)
qed

theorem csv_round_trip_witness:
  "csv_decode (convertXlsxToCsv [[Some [CHR ''a'', CHR 0x22, CHR ''b''], None], [Some '','']])
     = Some [[[CHR ''a'', CHR 0x22, CHR ''b''], []], ['','']]"
  using csv_round_trip [of "[[Some [CHR ''a'', CHR 0x22, CHR ''b''], None], [Some '','']]"]
  by (auto simp: cell_text_def)


subsection \<open>convertPptxToText\<close>

lemma slide_separator_chars:
  "slide_separator = ''----------------------------------------'' @ [CHR 0x0A]"
  by (simp add: slide_separator_def eval_nat_numeral)

lemma digits_of_no_dash: "CHR ''-'' \<notin> set (digits_of n)"
proof (induction n rule: digits_of.induct)
  case (1 n)
  have d: "k < 10 \<Longrightarrow> ''0123456789'' ! k \<noteq> CHR ''-''" for k :: nat
  proof -
    assume "k < 10"
    then have "''0123456789'' ! k \<in> set ''0123456789''" by (intro nth_mem) simp
    then show ?thesis by auto
  qed
  show ?case
  proof (cases "n < 10")
    case True
    then show ?thesis using d [of n] by (simp add: digits_of.simps [of n])
  next
    case False
    then show ?thesis using 1 d [of "n mod 10"] by (simp add: digits_of.simps [of n])
  qed
qed

lemma occurrences_skip:
  "CHR ''-'' \<notin> set b \<Longrightarrow> occurrences slide_separator (b @ rest) = occurrences slide_separator rest"
  by (induction b) (auto simp: slide_separator_chars)

lemma occurrences_separator:
  "occurrences slide_separator (slide_separator @ rest) = Suc (occurrences slide_separator rest)"
  by (simp add: slide_separator_chars)

lemma prefix_line:
  "CHR 0x0A \<notin> set D \<Longrightarrow>
   prefix (D @ [CHR 0x0A]) (u @ CHR 0x0A # rest) = prefix (D @ [CHR 0x0A]) (u @ [CHR 0x0A])"
proof (induction D arbitrary: u)
  case Nil
  then show ?case by (cases u) auto
next
  case (Cons d D)
  then show ?case by (cases u) auto
qed

lemma prefix_separator_line:
  "prefix slide_separator (u @ CHR 0x0A # rest) = prefix slide_separator (u @ [CHR 0x0A])"
  unfolding slide_separator_def by (rule prefix_line) simp

lemma occurrences_line:
  "occurrences slide_separator (t @ CHR 0x0A # rest)
     = occurrences slide_separator (t @ [CHR 0x0A]) + occurrences slide_separator rest"
proof (induction t)
  case Nil
  then show ?case by (simp add: slide_separator_chars)
next
  case (Cons c t)
  have p: "prefix slide_separator (c # t @ CHR 0x0A # rest) = prefix slide_separator (c # t @ [CHR 0x0A])"
    using prefix_separator_line [of "c # t" rest] by simp
  have "occurrences slide_separator ((c # t) @ CHR 0x0A # rest)
      = (if prefix slide_separator (c # t @ CHR 0x0A # rest) then 1 else 0)
        + occurrences slide_separator (t @ CHR 0x0A # rest)"
    by simp
  also have "\<dots> = (if prefix slide_separator (c # t @ [CHR 0x0A]) then 1 else 0)
        + (occurrences slide_separator (t @ [CHR 0x0A]) + occurrences slide_separator rest)"
    unfolding p Cons ..
  also have "\<dots> = occurrences slide_separator ((c # t) @ [CHR 0x0A]) + occurrences slide_separator rest"
    by simp
  finally show ?case .
qed

lemma occurrences_slide_block:
  "occurrences slide_separator (slide_block i s @ rest)
     = separator_lines s + occurrences slide_separator rest"
proof -
  have p: "CHR ''-'' \<notin> set (''Slide '' @ digits_of (i + 1) @ '': '')"
    by (simp add: digits_of_no_dash)
  have "slide_block i s @ rest
      = (''Slide '' @ digits_of (i + 1) @ '': '') @ title s @ CHR 0x0A # content s @ CHR 0x0A # CHR 0x0A # rest"
    by (simp add: slide_block_def)
  then have "occurrences slide_separator (slide_block i s @ rest)
      = occurrences slide_separator (title s @ CHR 0x0A # content s @ CHR 0x0A # CHR 0x0A # rest)"
    using occurrences_skip [OF p] by simp
  also have "\<dots> = occurrences slide_separator (title s @ [CHR 0x0A])
      + occurrences slide_separator (content s @ CHR 0x0A # CHR 0x0A # rest)"
    by (rule occurrences_line)
  also have "occurrences slide_separator (content s @ CHR 0x0A # CHR 0x0A # rest)
      = occurrences slide_separator (content s @ [CHR 0x0A])
        + occurrences slide_separator (CHR 0x0A # rest)"
    by (rule occurrences_line)
  also have "occurrences slide_separator (CHR 0x0A # rest) = occurrences slide_separator rest"
    by (simp add: slide_separator_chars)
  finally show ?thesis by (simp add: separator_lines_def)
qed

lemma occurrences_blocks:
  "occurrences slide_separator (join slide_separator (map_index slide_block i slides))
     = (length slides - 1) + sum_list (map separator_lines slides)"
proof (induction slides arbitrary: i)
  case Nil
  then show ?case by (simp add: slide_separator_chars)
next
  case (Cons s slides)
  show ?case
  proof (cases slides)
    case Nil
    then show ?thesis
      using occurrences_slide_block [of i s "[]"] by (simp add: slide_separator_chars)
  next
    case (Cons s' slides')
    then have "join slide_separator (map_index slide_block i (s # slides))
        = slide_block i s @ slide_separator @ join slide_separator (map_index slide_block (Suc i) slides)"
      by simp
    then show ?thesis
      using Cons.IH [of "Suc i"] Cons
      by (simp add: occurrences_slide_block occurrences_separator)
  qed
qed

lemma join_snoc:
  "join sep (xs @ [x]) = (if xs = [] then [] else join sep xs @ sep) @ x"
  by (induction sep xs rule: join.induct) auto

lemma map_index_snoc:
  "map_index f i (xs @ [x]) = map_index f i xs @ [f (i + length xs) x]"
  by (induction xs arbitrary: i) auto

lemma map_index_Nil_iff: "map_index f i xs = [] \<longleftrightarrow> xs = []"
  by (cases xs) auto

text \<open>
  Claim C4, as amended. The text of no slides is empty, and the text of a sequence with one
  more slide is the text of the sequence, the separator line when the sequence is not
  empty, and the block of the new slide: \<open>Slide N: title\<close>, line feed, body, two line
  feeds, with \<open>N\<close> the position of the slide counted from one. The separator occurs in
  the text \<open>n - 1\<close> times for \<open>n \<ge> 1\<close> slides (not at all for none), and once more for
  every separator line a title or a body holds itself: exactly \<open>n - 1\<close> times if and only
  if no title and no body holds one.
\<close>

theorem pptx_text_structure:
  "convertPptxToText [] = []
   \<and> convertPptxToText (slides @ [s]) =
       (if slides = [] then [] else convertPptxToText slides @ slide_separator)
       @ ''Slide '' @ digits_of (length slides + 1) @ '': '' @ title s @ [CHR 0x0A]
       @ content s @ [CHR 0x0A, CHR 0x0A]
   \<and> occurrences slide_separator (convertPptxToText slides)
       = (length slides - 1) + sum_list (map separator_lines slides)
   \<and> (occurrences slide_separator (convertPptxToText slides) = length slides - 1
        \<longleftrightarrow> (\<forall>s \<in> set slides. separator_lines s = 0))"
proof (intro conjI)
  show "convertPptxToText [] = []" by (simp add: convertPptxToText_def)
  show "convertPptxToText (slides @ [s]) =
       (if slides = [] then [] else convertPptxToText slides @ slide_separator)
       @ ''Slide '' @ digits_of (length slides + 1) @ '': '' @ title s @ [CHR 0x0A]
       @ content s @ [CHR 0x0A, CHR 0x0A]"
    by (simp add: convertPptxToText_def map_index_snoc join_snoc map_index_Nil_iff slide_block_def)
  show c: "occurrences slide_separator (convertPptxToText slides)
       = (length slides - 1) + sum_list (map separator_lines slides)"
    by (simp add: convertPptxToText_def occurrences_blocks)
  show "occurrences slide_separator (convertPptxToText slides) = length slides - 1
        \<longleftrightarrow> (\<forall>s \<in> set slides. separator_lines s = 0)"
    unfolding c by (auto simp: sum_list_eq_0_iff)
qed

theorem pptx_text_structure_witness:
  "occurrences slide_separator
     (convertPptxToText [\<lparr>title = ''Self-attention'', content = ''- a''\<rparr>,
                         \<lparr>title = ''B'', content = ''y''\<rparr>]) = 1"
proof -
  have "\<forall>s \<in> set [\<lparr>title = ''Self-attention'', content = ''- a''\<rparr>, \<lparr>title = ''B'', content = ''y''\<rparr>].
      separator_lines s = 0"
    by (simp add: separator_lines_def slide_separator_chars)
  with pptx_text_structure
    [of "[\<lparr>title = ''Self-attention'', content = ''- a''\<rparr>, \<lparr>title = ''B'', content = ''y''\<rparr>]"]
  show ?thesis by simp
qed


text \<open>
  A slide whose body is a line of forty dashes: one slide, and the separator line occurs
  once in the text.
\<close>

theorem pptx_separator_count_counterexample:
  "occurrences slide_separator
     (convertPptxToText [\<lparr>title = ''t'', content = ''----------------------------------------''\<rparr>]) = 1
   \<and> length [\<lparr>title = ''t'', content = ''----------------------------------------''\<rparr>] - 1 = (0::nat)"
  by (simp add: convertPptxToText_def slide_block_def slide_separator_chars digits_of.simps)


section \<open>Properties of the archive builder\<close>







subsection \<open>The entry of a docx artifact\<close>

text \<open>
  The entry of a docx artifact holds the content of the artifact as it is, under the name
  with the first \<open>.docx\<close> replaced by \<open>.html\<close>. For a name whose only dot is the one of
  its ending that is the name with the ending rewritten.
\<close>

lemma docx_entry:
  "gf_type f = DOCX \<Longrightarrow>
   switch_file_type f = Inr (replace_first ''.docx'' ''.html'' (gf_name f), gf_content f)"
  by (simp add: switch_file_type_def)

lemma replace_first_extension:
  "CHR ''.'' \<notin> set base \<Longrightarrow>
   replace_first (CHR ''.'' # ext) rep (base @ CHR ''.'' # ext) = base @ rep"
  by (induction base) auto

text \<open>
  Claim C5 at the name \<open>a.docx.docx\<close>: the name ends in \<open>.docx\<close>, the entry is stored as
  \<open>a.html.docx\<close>, which does not end in \<open>.html\<close>.
\<close>

theorem docx_name_first_occurrence:
  "downloadResultsAsZip
     [TreeNode ''n1'' ''a.docx.docx'' File None
        (Some \<lparr>gf_id = ''1'', gf_name = ''a.docx.docx'', gf_type = DOCX, gf_content = Text ''<p>x</p>''\<rparr>)]
     = Inr (''Rias_Research_Results.zip'', [''a.html.docx'' \<mapsto> Text ''<p>x</p>''])
   \<and> suffix ''.docx'' ''a.docx.docx'' \<and> \<not> suffix ''.html'' ''a.html.docx''"
  by (simp add: downloadResultsAsZip_def switch_file_type_def zip_file_def suffix_to_prefix)

section \<open>Properties of the preview\<close>

lemma split_on_not_Nil: "split_on c s \<noteq> []"
  by (induction s) auto

lemma split_on_tail: "c \<in> set s \<Longrightarrow> tl (split_on c s) \<noteq> []"
  using split_on_not_Nil [of c] by (induction s) auto

lemma split_on_without: "c \<notin> set s \<Longrightarrow> split_on c s = [s]"
  by (induction s) auto

lemma last_split_on_append:
  "c \<notin> set ext \<Longrightarrow> last (split_on c (base @ c # ext)) = ext"
proof (induction base)
  case Nil
  then show ?case by (simp add: split_on_without)
next
  case (Cons x base)
  have "tl (split_on c (base @ c # ext)) \<noteq> []"
    by (rule split_on_tail) simp
  then have "last (split_on c ((x # base) @ c # ext)) = last (split_on c (base @ c # ext))"
    using split_on_not_Nil [of c "base @ c # ext"]
    by (cases "split_on c (base @ c # ext)") auto
  then show ?case using Cons by simp
qed

lemma fileExtension_ending:
  "CHR ''.'' \<notin> set ext \<Longrightarrow> fileExtension (base @ CHR ''.'' # ext) = toLowerCase ext"
  by (simp add: fileExtension_def last_split_on_append)




section \<open>Properties of the HTTP client\<close>

lemma checkJobStatus_as_upload:
  "checkJobStatus sessionId answer = uploadAndProcessFile file answer"
  by (simp add: checkJobStatus_def uploadAndProcessFile_def)

lemma upload_results:
  "uploadAndProcessFile file (Rejected e) = Inl e"
  "ok r \<Longrightarrow> uploadAndProcessFile file (Resolved r) = body r"
  "\<not> ok r \<Longrightarrow> isl (uploadAndProcessFile file (Resolved r))"
  "\<not> ok r \<Longrightarrow> body r = Inr err \<Longrightarrow> err \<noteq> JNull \<Longrightarrow>
     uploadAndProcessFile file (Resolved r) =
       Inl (Error (if js_truthy (js_prop err ''detail'') then js_string (js_prop err ''detail'')
                   else ''HTTP error! status: '' @ digits_of (status r)))"
  by (auto simp: uploadAndProcessFile_def js_get_def split: sum.splits)

text \<open>
  Claim C6, as amended. Each of the two functions fails whenever the response is not 2xx,
  and also when the request gets no response or the body of a 2xx response is not JSON; on
  a 2xx response with a JSON body it returns the parsed body. For a response that is not
  2xx and whose body is JSON other than \<open>null\<close>, the message of the error is the
  \<open>detail\<close> of the body, as a string, when that is truthy (a non-empty string is taken as
  it is), and \<open>HTTP error! status:\<close> with the status code otherwise.
\<close>

theorem http_client_results:
  "(\<forall>f \<in> {uploadAndProcessFile file, checkJobStatus sessionId}.
      f (Rejected e) = Inl e
      \<and> (ok r \<longrightarrow> f (Resolved r) = body r)
      \<and> (\<not> ok r \<longrightarrow> isl (f (Resolved r)))
      \<and> (\<not> ok r \<longrightarrow> body r = Inr err \<longrightarrow> err \<noteq> JNull \<longrightarrow>
            f (Resolved r) =
              Inl (Error (if js_truthy (js_prop err ''detail'')
                          then js_string (js_prop err ''detail'')
                          else ''HTTP error! status: '' @ digits_of (status r))))
      \<and> (\<not> ok r \<longrightarrow> body r = Inr err \<longrightarrow> js_prop err ''detail'' = Some (JStr d) \<longrightarrow> d \<noteq> [] \<longrightarrow>
            f (Resolved r) = Inl (Error d)))"
proof -
  have c: "checkJobStatus sessionId = uploadAndProcessFile file"
    by (rule ext) (rule checkJobStatus_as_upload)
  have n: "js_prop err ''detail'' = Some (JStr d) \<Longrightarrow> err \<noteq> JNull"
    by auto
  show ?thesis
    unfolding c using n by (auto simp: upload_results js_string_def)
qed

theorem http_client_results_witness:
  "uploadAndProcessFile ''paper.pdf''
     (Resolved \<lparr>status = 413, body = Inr (JObj [(''detail'', JStr ''File too large'')])\<rparr>)
     = Inl (Error ''File too large'')
   \<and> checkJobStatus ''s1''
     (Resolved \<lparr>status = 404, body = Inr (JObj [])\<rparr>) = Inl (Error ''HTTP error! status: 404'')
   \<and> checkJobStatus ''s1''
     (Resolved \<lparr>status = 200, body = Inr (JObj [(''status'', JStr ''processing'')])\<rparr>)
     = Inr (JObj [(''status'', JStr ''processing'')])"
proof -
  have d: "digits_of 404 = ''404''" by code_simp
  show ?thesis
    using http_client_results [of "''paper.pdf''" "''s1''" "Error []"
        "\<lparr>status = 413, body = Inr (JObj [(''detail'', JStr ''File too large'')])\<rparr>"
        "JObj [(''detail'', JStr ''File too large'')]" "''File too large''"]
      http_client_results [of "''paper.pdf''" "''s1''" "Error []"
        "\<lparr>status = 404, body = Inr (JObj [])\<rparr>" "JObj []" "[]"]
      http_client_results [of "''paper.pdf''" "''s1''" "Error []"
        "\<lparr>status = 200, body = Inr (JObj [(''status'', JStr ''processing'')])\<rparr>" "JNull" "[]"]
    by (simp add: ok_def d js_string_def)
qed

text \<open>
  A request that gets no response fails though no response is non-2xx; a 2xx response
  whose body is not JSON fails; a \<open>detail\<close> that is present and empty is not the message.
\<close>

theorem http_client_counterexample:
  "uploadAndProcessFile ''paper.pdf'' (Rejected (TypeError ''Failed to fetch''))
     = Inl (TypeError ''Failed to fetch'')
   \<and> ok \<lparr>status = 200, body = Inl (SyntaxError ''Unexpected end of JSON input'')\<rparr>
   \<and> checkJobStatus ''s1''
       (Resolved \<lparr>status = 200, body = Inl (SyntaxError ''Unexpected end of JSON input'')\<rparr>)
     = Inl (SyntaxError ''Unexpected end of JSON input'')
   \<and> uploadAndProcessFile ''paper.pdf''
       (Resolved \<lparr>status = 500, body = Inr (JObj [(''detail'', JStr [])])\<rparr>)
     = Inl (Error ''HTTP error! status: 500'')"
proof -
  have d: "digits_of 500 = ''500''" by code_simp
  show ?thesis
    by (simp add: uploadAndProcessFile_def checkJobStatus_def ok_def js_get_def d)
qed

section \<open>Properties of the job state machine\<close>

lemmas handler_defs =
  initial_app_def handleFilesChange_def clear_poll_def clearInterval_def handleGenerate_def
  fetch_def upload_request_def status_request_def upload_settled_def uploadAndProcessFile_def
  checkJobStatus_def ok_def js_get_def js_destructure_def setInterval_def
  processing_message_def poll_def
  status_settled_def tree_settled_def js_string_def handleFileClick_def handleCloseViewer_def

lemma processing_state_eval:
  "isLoading processing_state \<and> pollInterval processing_state = Some 1
   \<and> timers processing_state = [(1, Some (JStr ''s1''))] \<and> pending processing_state = []
   \<and> next_request processing_state = 1 \<and> selectedFile processing_state = None"
  by (simp add: processing_state_def initial_app_def handleFilesChange_def clear_poll_def
      handleGenerate_def fetch_def upload_request_def upload_settled_def uploadAndProcessFile_def
      ok_def js_get_def js_destructure_def setInterval_def processing_message_def)

subsection \<open>The reset\<close>

text \<open>
  Claim C10, as amended. Selecting files sets \<open>uploadedFiles\<close>, clears \<open>downloadUrl\<close>,
  \<open>error\<close>, \<open>statusMessage\<close>, \<open>fileTree\<close> and \<open>selectedFile\<close>, and clears the interval
  whose handle \<open>pollInterval\<close> holds and no other; it leaves \<open>isLoading\<close>,
  \<open>pollInterval\<close> and the requests in flight as they were. A page that is loading with
  no request in flight and no interval but the one \<open>pollInterval\<close> holds is still
  loading after the reset, with no interval set and no request in flight.
\<close>

theorem reset_leaves_loading:
  "uploadedFiles (handleFilesChange files s) = files
   \<and> downloadUrl (handleFilesChange files s) = None
   \<and> error (handleFilesChange files s) = None
   \<and> statusMessage (handleFilesChange files s) = None
   \<and> fileTree (handleFilesChange files s) = JNull
   \<and> selectedFile (handleFilesChange files s) = None
   \<and> isLoading (handleFilesChange files s) = isLoading s
   \<and> pollInterval (handleFilesChange files s) = pollInterval s
   \<and> pending (handleFilesChange files s) = pending s
   \<and> timers (handleFilesChange files s)
       = (case pollInterval s of
            None \<Rightarrow> timers s
          | Some h \<Rightarrow> filter (\<lambda>t. fst t \<noteq> h) (timers s))
   \<and> (isLoading s \<and> pending s = [] \<and> (\<forall>t \<in> set (timers s). pollInterval s = Some (fst t))
        \<longrightarrow> stuck_loading (handleFilesChange files s))"
proof -
  have "timers (handleFilesChange files s) = []"
    if "\<forall>t \<in> set (timers s). pollInterval s = Some (fst t)"
  proof (cases "pollInterval s")
    case None
    with that have "timers s = []" by (cases "timers s") auto
    with None show ?thesis by (simp add: handleFilesChange_def clear_poll_def)
  next
    case (Some h)
    with that have "\<forall>t \<in> set (timers s). fst t = h" by auto
    with Some show ?thesis
      by (simp add: handleFilesChange_def clear_poll_def clearInterval_def filter_empty_conv)
  qed
  then show ?thesis
    by (auto simp: handleFilesChange_def clear_poll_def clearInterval_def stuck_loading_def
        split: option.splits)
qed

theorem reset_leaves_loading_witness:
  "isLoading (handleFilesChange [''other.pdf''] processing_state)
   \<and> timers (handleFilesChange [''other.pdf''] processing_state) = []
   \<and> pending (handleFilesChange [''other.pdf''] processing_state) = []"
  using reset_leaves_loading [of "[''other.pdf'']" processing_state] processing_state_eval
  by (simp add: stuck_loading_def)

text \<open>
  A reset while the upload is in flight clears no interval: the upload settles after it and
  sets the interval whose poll ends the loading. A reset with two intervals set clears the
  one \<open>pollInterval\<close> holds, and the other goes on.
\<close>

theorem reset_counterexample:
  "ui_trace reset_during_upload_trace initial_app
   \<and> isLoading (run (take 3 reset_during_upload_trace) initial_app)
   \<and> timers (run (take 4 reset_during_upload_trace) initial_app) = [(1, Some (JStr ''s1''))]
   \<and> isLoading (run reset_during_upload_trace initial_app) = False
   \<and> isLoading (run stale_poll_trace initial_app)
   \<and> timers (handleFilesChange [''other.pdf''] (run stale_poll_trace initial_app))
       = [(2, Some (JStr ''s1''))]"
  by (simp add: reset_during_upload_trace_def stale_poll_trace_def stale_error_def started_def
      handler_defs generate_enabled_def shows_upload_view_def truthy_string_def)

text \<open>
  After such a reset with nothing in flight, no event the page offers ends the loading:
  the button is disabled, no interval fires and no request settles.
\<close>

lemma stuck_loading_step:
  "stuck_loading s \<Longrightarrow> e = Generate \<longrightarrow> generate_enabled s \<Longrightarrow> stuck_loading (step e s)"
  by (cases e)
    (auto simp: stuck_loading_def generate_enabled_def handleFilesChange_def clear_poll_def
      clearInterval_def handleFileClick_def handleCloseViewer_def split: option.splits)

subsection \<open>Completion with a tree that cannot be loaded\<close>

text \<open>
  The job's interval is the one \<open>pollInterval\<close> holds. A poll answers \<open>complete\<close> with
  a \<open>tree_url\<close>, and the fetch of the tree throws: it is rejected, or its body cannot be
  read. Then the interval is cleared and fires no more, loading has ended,
  \<open>downloadUrl\<close> is the download URL of the session, the tree is as it was, and
  \<open>error\<close> holds the advice that the tree could not be loaded: the page shows the
  download button and the advice together.
\<close>

lemma tree_fetch_thrown:
  assumes "pollInterval s = Some h" and "map_of (timers s) h = Some session_id"
    and "ok r" and "body r = Inr statusResult"
    and "js_prop statusResult ''status'' = Some (JStr ''complete'')"
    and "js_truthy (js_prop statusResult ''tree_url'')"
    and "tree = Rejected e \<or> (\<exists>r'. tree = Resolved r' \<and> body r' = Inl e)"
  shows "timers (run [Tick h, Settle (next_request s) (Resolved r),
                      Settle (Suc (next_request s)) tree] s)
        = filter (\<lambda>t. fst t \<noteq> h) (timers s)
    \<and> isLoading (run [Tick h, Settle (next_request s) (Resolved r),
                       Settle (Suc (next_request s)) tree] s) = False
    \<and> downloadUrl (run [Tick h, Settle (next_request s) (Resolved r),
                         Settle (Suc (next_request s)) tree] s)
        = Some (getDownloadUrl (js_string session_id))
    \<and> statusMessage (run [Tick h, Settle (next_request s) (Resolved r),
                           Settle (Suc (next_request s)) tree] s) = Some ''Processing complete!''
    \<and> error (run [Tick h, Settle (next_request s) (Resolved r),
                   Settle (Suc (next_request s)) tree] s)
        = Some ''Processing complete, but failed to load results tree.''
    \<and> fileTree (run [Tick h, Settle (next_request s) (Resolved r),
                      Settle (Suc (next_request s)) tree] s) = fileTree s
    \<and> requests (run [Tick h, Settle (next_request s) (Resolved r),
                      Settle (Suc (next_request s)) tree] s)
        = requests s @ [status_request (js_string session_id),
                        Request ''GET'' (API_BASE_URL @ js_string (js_prop statusResult ''tree_url''))]
    \<and> (shows_upload_view s \<longrightarrow>
          shows_download (run [Tick h, Settle (next_request s) (Resolved r),
                               Settle (Suc (next_request s)) tree] s)
          \<and> shows_error (run [Tick h, Settle (next_request s) (Resolved r),
                               Settle (Suc (next_request s)) tree] s))"
proof -
  have nn: "statusResult \<noteq> JNull" using assms(5) by auto
  have t: "(case tree of Rejected e \<Rightarrow> Inl e | Resolved treeResponse \<Rightarrow> body treeResponse) = Inl e"
    using assms(7) by auto
  show ?thesis
    using assms(1-6) nn t
    by (simp add: poll_def fetch_def status_settled_def checkJobStatus_def js_get_def Let_def
        clear_poll_def clearInterval_def tree_settled_def shows_download_def shows_error_def
        shows_upload_view_def truthy_string_def getDownloadUrl_def API_BASE_URL_def)
qed

text \<open>
  Claim C7 at a \<open>tree_url\<close> that answers 404 with a JSON body: the fetch resolves, its
  status is not looked at, and the body is read as the tree. The job is complete and
  \<open>downloadUrl\<close> is set, but \<open>error\<close> stays empty and \<open>fileTree\<close> is the error body: no
  advice is shown. With two intervals set, the poll of the first job that answers
  \<open>complete\<close> clears the interval of the second and its own goes on.
\<close>

theorem tree_not_found_no_advice:
  "error (run [Tick 1, Settle 1 completed_with_tree, Settle 2 tree_not_found] processing_state) = None
   \<and> fileTree (run [Tick 1, Settle 1 completed_with_tree, Settle 2 tree_not_found] processing_state)
       = JObj [(''detail'', JStr ''Not Found'')]
   \<and> downloadUrl (run [Tick 1, Settle 1 completed_with_tree, Settle 2 tree_not_found] processing_state)
       = Some ''http://localhost:8000/download-result/s1''
   \<and> \<not> shows_error (run [Tick 1, Settle 1 completed_with_tree, Settle 2 tree_not_found] processing_state)
   \<and> requests (run [Tick 1, Settle 1 completed_with_tree, Settle 2 tree_not_found] processing_state)
       = [Request ''POST'' ''http://localhost:8000/upload-and-process/'',
          Request ''GET'' ''http://localhost:8000/status/s1'',
          Request ''GET'' ''http://localhost:8000/t.json'']
   \<and> timers (run stale_poll_trace initial_app) = [(2, Some (JStr ''s1'')), (3, Some (JStr ''s2''))]
   \<and> timers (run (stale_poll_trace @ [Tick 2, Settle 5 completed]) initial_app)
       = [(2, Some (JStr ''s1''))]"
  by (simp add: processing_state_def completed_with_tree_def tree_not_found_def completed_def
      stale_poll_trace_def stale_error_def started_def handler_defs Let_def getDownloadUrl_def
      API_BASE_URL_def shows_error_def truthy_string_def)

subsection \<open>Three polls\<close>

text \<open>
  Claim C9. A job is submitted; the first two polls answer \<open>processing\<close>, the third
  \<open>complete\<close> with a \<open>tree_url\<close>. The requests sent are the upload, three to the status
  endpoint of the session and one to the tree URL, in this order, and in the end
  \<open>downloadUrl\<close> is \<open>getDownloadUrl\<close> of the session id, with no interval set and no
  request in flight.
\<close>

theorem three_polls_scenario:
  assumes "tree_url \<noteq> []"
  shows "requests (run (three_polls_trace file m sessionId result_url tree_url tree) initial_app)
       = [upload_request file, status_request sessionId, status_request sessionId,
          status_request sessionId, Request ''GET'' (API_BASE_URL @ tree_url)]
    \<and> downloadUrl (run (three_polls_trace file m sessionId result_url tree_url tree) initial_app)
       = Some (getDownloadUrl sessionId)
    \<and> isLoading (run (three_polls_trace file m sessionId result_url tree_url tree) initial_app) = False
    \<and> error (run (three_polls_trace file m sessionId result_url tree_url tree) initial_app) = None
    \<and> fileTree (run (three_polls_trace file m sessionId result_url tree_url tree) initial_app) = tree
    \<and> timers (run (three_polls_trace file m sessionId result_url tree_url tree) initial_app) = []
    \<and> pending (run (three_polls_trace file m sessionId result_url tree_url tree) initial_app) = []"
  using assms by (simp add: three_polls_trace_def handler_defs Let_def)

theorem three_polls_scenario_witness:
  "requests (run (three_polls_trace ''paper.pdf'' ''ok'' ''s1'' ''/r/s1'' ''/t/s1.json'' (JArr []))
       initial_app)
     = [Request ''POST'' ''http://localhost:8000/upload-and-process/'',
        Request ''GET'' ''http://localhost:8000/status/s1'',
        Request ''GET'' ''http://localhost:8000/status/s1'',
        Request ''GET'' ''http://localhost:8000/status/s1'',
        Request ''GET'' ''http://localhost:8000/t/s1.json'']
   \<and> downloadUrl (run (three_polls_trace ''paper.pdf'' ''ok'' ''s1'' ''/r/s1'' ''/t/s1.json'' (JArr []))
       initial_app)
     = Some ''http://localhost:8000/download-result/s1''"
  using three_polls_scenario [of "''/t/s1.json''" "''paper.pdf''" "''ok''" "''s1''" "''/r/s1''" "JArr []"]
  by (simp add: upload_request_def status_request_def API_BASE_URL_def getDownloadUrl_def)

subsection \<open>One interval at a time\<close>

text \<open>
  Claim C1 on two submissions of which the second starts before the upload of the first
  has settled: both uploads settle, and two intervals are set. The page itself can get
  there: after a poll has failed, a second answer of the same job that was still in flight
  ends the loading of the next job, and its button is enabled while its upload is pending.
\<close>

theorem double_submit_two_timers:
  "timers (run [FilesChange [''paper.pdf''], Generate, Generate,
                Settle 0 (started ''s1''), Settle 1 (started ''s2'')] initial_app)
     = [(1, Some (JStr ''s1'')), (2, Some (JStr ''s2''))]
   \<and> pending (run [FilesChange [''paper.pdf''], Generate, Generate,
                Settle 0 (started ''s1''), Settle 1 (started ''s2'')] initial_app) = []
   \<and> ui_trace stale_poll_trace initial_app
   \<and> timers (run stale_poll_trace initial_app) = [(2, Some (JStr ''s1'')), (3, Some (JStr ''s2''))]
   \<and> pending (run stale_poll_trace initial_app) = []"
  by (simp add: stale_poll_trace_def stale_error_def started_def handler_defs generate_enabled_def
      shows_upload_view_def truthy_string_def)

text \<open>
  When no submission starts while an upload is in flight, at most one interval is set at
  any time, and it is the one \<open>pollInterval\<close> holds.
\<close>

lemma length_filter_conj:
  "length (filter (\<lambda>x. P x \<and> Q x) xs) \<le> length (filter Q xs)"
  by (induction xs) auto

lemma clear_poll_fields [simp]:
  "pollInterval (clear_poll s) = pollInterval s"
  "pending (clear_poll s) = pending s"
  "set (timers (clear_poll s)) \<subseteq> set (timers s)"
  "length (timers (clear_poll s)) \<le> length (timers s)"
  by (auto simp: clear_poll_def clearInterval_def split: option.splits)

lemma clear_poll_owned:
  assumes "\<forall>t \<in> set (timers s). pollInterval s = Some (fst t)"
  shows "timers (clear_poll s) = []"
proof (cases "pollInterval s")
  case None
  with assms have "timers s = []" by (cases "timers s") auto
  with None show ?thesis by (simp add: clear_poll_def)
next
  case (Some h)
  with assms have "\<forall>t \<in> set (timers s). fst t = h" by auto
  with Some show ?thesis by (simp add: clear_poll_def clearInterval_def filter_empty_conv)
qed

lemma one_timer_clear: "one_timer s \<Longrightarrow> one_timer (clear_poll s)"
  using clear_poll_owned [of s] by (simp add: one_timer_def uploads_in_flight_def)

lemma one_timer_FilesChange: "one_timer s \<Longrightarrow> one_timer (handleFilesChange files s)"
proof -
  assume a: "one_timer s"
  let ?s = "s\<lparr>uploadedFiles := files, downloadUrl := None, error := None,
              statusMessage := None, fileTree := JNull, selectedFile := None\<rparr>"
  from a have "one_timer ?s" by (simp add: one_timer_def uploads_in_flight_def)
  then show ?thesis unfolding handleFilesChange_def by (rule one_timer_clear)
qed

lemma one_timer_Generate:
  assumes "one_timer s" and "uploads_in_flight s = []"
  shows "one_timer (handleGenerate s)"
proof (cases "uploadedFiles s")
  case Nil
  with assms show ?thesis by (simp add: handleGenerate_def)
next
  case (Cons f fs)
  let ?s = "s\<lparr>isLoading := True, statusMessage := Some ''Uploading file...'',
              downloadUrl := None, error := None, fileTree := JNull, selectedFile := None\<rparr>"
  have "\<forall>t \<in> set (timers ?s). pollInterval ?s = Some (fst t)"
    using assms(1) by (simp add: one_timer_def)
  then have "timers (clear_poll ?s) = []" by (rule clear_poll_owned)
  then show ?thesis
    using assms(2) Cons
    by (simp add: handleGenerate_def fetch_def one_timer_def uploads_in_flight_def)
qed

lemma one_timer_Tick: "one_timer s \<Longrightarrow> one_timer (step (Tick h) s)"
  by (auto simp: one_timer_def uploads_in_flight_def poll_def fetch_def split: option.splits)

lemma uploads_after_settle:
  assumes "length (uploads_in_flight s) \<le> 1" and "map_of (pending s) r = Some (AwaitUpload f)"
  shows "uploads_in_flight (s\<lparr>pending := filter (\<lambda>p. fst p \<noteq> r) (pending s)\<rparr>) = []"
proof -
  have m: "(r, AwaitUpload f) \<in> set (uploads_in_flight s)"
    using map_of_SomeD [OF assms(2)] by (simp add: uploads_in_flight_def)
  then obtain x where x: "uploads_in_flight s = [x]"
    using assms(1) by (cases "uploads_in_flight s") auto
  with m have x': "x = (r, AwaitUpload f)" by simp
  have "fst p = r" if "p \<in> set (pending s)" "is_upload (snd p)" for p
  proof -
    from that have "p \<in> set (uploads_in_flight s)" by (simp add: uploads_in_flight_def)
    with x x' show ?thesis by simp
  qed
  then show ?thesis by (auto simp: uploads_in_flight_def filter_empty_conv)
qed

lemma one_timer_removed:
  "one_timer s \<Longrightarrow> one_timer (s\<lparr>pending := filter (\<lambda>p. fst p \<noteq> r) (pending s)\<rparr>)"
proof -
  assume a: "one_timer s"
  let ?s = "s\<lparr>pending := filter (\<lambda>p. fst p \<noteq> r) (pending s)\<rparr>"
  have "uploads_in_flight ?s \<noteq> [] \<Longrightarrow> uploads_in_flight s \<noteq> []"
    by (auto simp: uploads_in_flight_def filter_empty_conv)
  moreover have "length (uploads_in_flight ?s) \<le> length (uploads_in_flight s)"
    using length_filter_conj [of "\<lambda>p. fst p \<noteq> r" "\<lambda>p. is_upload (snd p)" "pending s"]
    by (simp add: uploads_in_flight_def)
  ultimately show ?thesis using a by (auto simp: one_timer_def)
qed

lemma one_timer_upload_settled:
  assumes "one_timer s" and "map_of (pending s) r = Some (AwaitUpload f)"
  shows "one_timer (upload_settled f answer (s\<lparr>pending := filter (\<lambda>p. fst p \<noteq> r) (pending s)\<rparr>))"
proof -
  let ?s = "s\<lparr>pending := filter (\<lambda>p. fst p \<noteq> r) (pending s)\<rparr>"
  have u: "uploads_in_flight ?s = []"
    using assms by (intro uploads_after_settle) (simp_all add: one_timer_def)
  have "uploads_in_flight s \<noteq> []"
    using map_of_SomeD [OF assms(2)] by (force simp: uploads_in_flight_def filter_empty_conv)
  then have t: "timers s = []" using assms(1) by (simp add: one_timer_def)
  show ?thesis
    using u t
    by (auto simp: upload_settled_def setInterval_def one_timer_def uploads_in_flight_def
        split: sum.splits)
qed

lemma one_timer_status_settled:
  assumes "one_timer s"
  shows "one_timer (status_settled session_id answer s)"
proof -
  have c: "one_timer (clear_poll s)" using assms by (rule one_timer_clear)
  have f: "one_timer (x\<lparr>isLoading := a, error := b\<rparr>)"
    "one_timer (x\<lparr>isLoading := a, statusMessage := c, downloadUrl := d\<rparr>)"
    "one_timer (x\<lparr>statusMessage := c\<rparr>)" if "one_timer x" for x a b c d
    using that by (simp_all add: one_timer_def uploads_in_flight_def)
  have g: "one_timer (fetch q AwaitTree x)" if "one_timer x" for x q
    using that by (simp add: one_timer_def uploads_in_flight_def fetch_def)
  show ?thesis
    using assms c f g
    by (auto simp: status_settled_def Let_def split: sum.splits)
qed

lemma one_timer_tree_settled: "one_timer s \<Longrightarrow> one_timer (tree_settled answer s)"
  by (auto simp: tree_settled_def one_timer_def uploads_in_flight_def split: sum.splits fetch_result.splits)

lemma one_timer_Settle: "one_timer s \<Longrightarrow> one_timer (step (Settle r answer) s)"
proof -
  assume a: "one_timer s"
  show ?thesis
  proof (cases "map_of (pending s) r")
    case None
    with a show ?thesis by simp
  next
    case (Some k)
    show ?thesis
    proof (cases k)
      case (AwaitUpload f)
      with Some a show ?thesis using one_timer_upload_settled [of s r f answer] by simp
    next
      case (AwaitStatus sid)
      with Some show ?thesis
        using one_timer_status_settled [OF one_timer_removed [OF a, of r]] by simp
    next
      case AwaitTree
      with Some show ?thesis
        using one_timer_tree_settled [OF one_timer_removed [OF a, of r]] by simp
    qed
  qed
qed

lemma one_timer_step:
  "one_timer s \<Longrightarrow> (e = Generate \<longrightarrow> uploads_in_flight s = []) \<Longrightarrow> one_timer (step e s)"
proof (cases e)
  case (FilesChange files)
  then show "one_timer s \<Longrightarrow> ?thesis" by (simp add: one_timer_FilesChange)
next
  case (FileClick p)
  then show "one_timer s \<Longrightarrow> ?thesis"
    by (simp add: handleFileClick_def one_timer_def uploads_in_flight_def)
next
  case CloseViewer
  then show "one_timer s \<Longrightarrow> ?thesis"
    by (simp add: handleCloseViewer_def one_timer_def uploads_in_flight_def)
next
  case Generate
  then show "one_timer s \<Longrightarrow> (e = Generate \<longrightarrow> uploads_in_flight s = []) \<Longrightarrow> ?thesis"
    by (simp add: one_timer_Generate)
next
  case (Tick h)
  then show "one_timer s \<Longrightarrow> ?thesis" using one_timer_Tick by simp
next
  case (Settle r answer)
  then show "one_timer s \<Longrightarrow> ?thesis" using one_timer_Settle by simp
qed

lemma one_timer_run:
  "one_timer s \<Longrightarrow> one_upload_at_a_time es s \<Longrightarrow> one_timer (run es s)"
proof (induction es arbitrary: s)
  case Nil
  then show ?case by simp
next
  case (Cons e es)
  then show ?case using one_timer_step [of s e] by simp
qed

theorem at_most_one_timer:
  "one_upload_at_a_time es initial_app \<Longrightarrow> length (timers (run es initial_app)) \<le> 1"
proof -
  assume a: "one_upload_at_a_time es initial_app"
  have "one_timer initial_app"
    by (simp add: one_timer_def initial_app_def uploads_in_flight_def)
  from one_timer_run [OF this a] show ?thesis by (simp add: one_timer_def)
qed


end
